theory Spec2Isabelle
  imports Complex_Main
begin

section \<open>Monte Carlo integration by the rejection method\<close>

text \<open>
  The notebook defines two estimators, \<open>MCHist\<close> and \<open>MCHist2\<close>, whose bodies differ only in
  the line that evaluates the target function \<open>f_x\<close>. The global pseudorandom generator
  is an explicit state: an infinite sequence of deviates and the number of deviates already
  drawn from it.

  The loop is modelled twice. The first model idealises Python floats as the real numbers;
  it settles what does not depend on rounding: how many trials run, which trials score,
  what a run reads and changes. The second model has the arithmetic of the code as a
  parameter, so that what is proved of it holds of float64 as of the reals; it settles
  what is said of the value returned. At exact real arithmetic the two models agree.
  The sample count is a mathematical integer; statements that depend on it being counted
  in 64 bits by the compiled loop assume it inside that range.
\<close>

subsection \<open>Errors and the random source\<close>

datatype error = ZeroDivisionError

record rng =
  deviates :: "nat \<Rightarrow> real"
  drawn :: nat

text \<open>\<open>random.random()\<close>: the next deviate of the source, which advances by one.\<close>

definition random_py :: "rng \<Rightarrow> real \<times> rng" where
  "random_py g = (deviates g (drawn g), g\<lparr>drawn := Suc (drawn g)\<rparr>)"

text \<open>\<open>random.uniform(a, b)\<close> is \<open>a + (b - a) * random()\<close>.\<close>

definition uniform :: "real \<Rightarrow> real \<Rightarrow> rng \<Rightarrow> real \<times> rng" where
  "uniform a b g = (case random_py g of (u, g') \<Rightarrow> (a + (b - a) * u, g'))"

text \<open>The deviates of a source lie in the half-open unit interval.\<close>

definition unit_deviates :: "rng \<Rightarrow> bool" where
  "unit_deviates g = (\<forall>i. 0 \<le> deviates g i \<and> deviates g i < 1)"

subsection \<open>The loop\<close>

text \<open>\<open>range(start, stop)\<close> with step one: empty when \<open>stop \<le> start\<close>.\<close>

definition range_py :: "int \<Rightarrow> int \<Rightarrow> int list" where
  "range_py start stop = [start..stop - 1]"

text \<open>A \<open>for\<close> loop over a list; an exception raised by the body leaves the loop.\<close>

fun for_loop :: "(int \<Rightarrow> 's \<Rightarrow> error + 's) \<Rightarrow> int list \<Rightarrow> 's \<Rightarrow> error + 's" where
  "for_loop body [] s = Inr s"
| "for_loop body (n # ns) s =
     (case body n s of Inl e \<Rightarrow> Inl e | Inr s' \<Rightarrow> for_loop body ns s')"

text \<open>
  One pass through the loop body. The state is the running \<open>tot_score\<close> and the random
  source; \<open>target\<close> is the line computing \<open>f_x\<close> from \<open>x\<close>, which may raise.
\<close>

definition trial ::
  "(real \<Rightarrow> error + real) \<Rightarrow> real \<Rightarrow> real \<Rightarrow> real \<Rightarrow> real \<Rightarrow> int \<Rightarrow> real \<times> rng
     \<Rightarrow> error + real \<times> rng" where
  "trial target a b fmax score n st =
     (case st of (tot_score, g) \<Rightarrow>
        (case uniform a b g of (x, g1) \<Rightarrow>
           (case uniform 0 fmax g1 of (f, g2) \<Rightarrow>
              (case target x of
                 Inl e \<Rightarrow> Inl e
               | Inr f_x \<Rightarrow>
                   if f < f_x then Inr (tot_score + score, g2) else Inr (tot_score, g2)))))"

text \<open>The body shared by \<open>MCHist\<close> and \<open>MCHist2\<close>, with the target function a parameter.\<close>

definition MCHist_of ::
  "(real \<Rightarrow> error + real) \<Rightarrow> int \<Rightarrow> real \<Rightarrow> real \<Rightarrow> real \<Rightarrow> rng \<Rightarrow> error + real \<times> rng" where
  "MCHist_of target n_hist a b fmax g =
     (let score = (b - a) * fmax;
          tot_score = 0
      in for_loop (trial target a b fmax score) (range_py 1 n_hist) (tot_score, g))"

text \<open>\<open>f_x = np.exp(x**2)\<close>\<close>

definition MCHist :: "int \<Rightarrow> real \<Rightarrow> real \<Rightarrow> real \<Rightarrow> rng \<Rightarrow> error + real \<times> rng" where
  "MCHist = MCHist_of (\<lambda>x. Inr (exp (x ^ 2)))"

text \<open>\<open>f_x = (np.exp(x)/x) + np.exp(1/x)\<close>: the Python division \<open>1/x\<close> raises at \<open>x = 0\<close>.\<close>

definition MCHist2 :: "int \<Rightarrow> real \<Rightarrow> real \<Rightarrow> real \<Rightarrow> rng \<Rightarrow> error + real \<times> rng" where
  "MCHist2 = MCHist_of (\<lambda>x. if x = 0 then Inl ZeroDivisionError
                              else Inr (exp x / x + exp (1 / x)))"

subsection \<open>Publishing the estimate\<close>

text \<open>\<open>results / num_hist\<close>: Python's true division raises on a zero divisor.\<close>

definition truediv :: "real \<Rightarrow> int \<Rightarrow> error + real" where
  "truediv x n = (if n = 0 then Inl ZeroDivisionError else Inr (x / of_int n))"

text \<open>
  The driver of each cell: \<open>results = MCHist(num_hist, a, b, fmax)\<close> followed by
  \<open>results / num_hist\<close>; an exception raised by the call propagates. The notebook
  rounds this quotient to six places for printing.
\<close>

definition estimate :: "error + real \<times> rng \<Rightarrow> int \<Rightarrow> error + real" where
  "estimate run num_hist =
     (case run of Inl e \<Rightarrow> Inl e | Inr (results, g') \<Rightarrow> truediv results num_hist)"

subsection \<open>The trials as the deviates determine them\<close>

text \<open>The \<open>x\<close> and the \<open>y\<close> that trial number \<open>j\<close> (counted from zero) draws from \<open>g\<close>.\<close>

definition x_at :: "real \<Rightarrow> real \<Rightarrow> rng \<Rightarrow> nat \<Rightarrow> real" where
  "x_at a b g j = a + (b - a) * deviates g (drawn g + 2 * j)"

definition y_at :: "real \<Rightarrow> rng \<Rightarrow> nat \<Rightarrow> real" where
  "y_at fmax g j = 0 + (fmax - 0) * deviates g (drawn g + 2 * j + 1)"

text \<open>The number of the first \<open>k\<close> trials in which the drawn \<open>y\<close> is below \<open>f x\<close>.\<close>

definition hits :: "(real \<Rightarrow> real) \<Rightarrow> real \<Rightarrow> real \<Rightarrow> real \<Rightarrow> rng \<Rightarrow> nat \<Rightarrow> nat" where
  "hits f a b fmax g k = length (filter (\<lambda>j. y_at fmax g j < f (x_at a b g j)) [0..<k])"

definition advance :: "nat \<Rightarrow> rng \<Rightarrow> rng" where
  "advance k g = g\<lparr>drawn := drawn g + k\<rparr>"

text \<open>A target cut off at the envelope: where it evaluates, its value is at most \<open>fmax\<close>.\<close>

definition clip :: "real \<Rightarrow> (real \<Rightarrow> error + real) \<Rightarrow> real \<Rightarrow> error + real" where
  "clip fmax target x = map_sum id (\<lambda>v. min v fmax) (target x)"

text \<open>A source for concrete runs: it yields the listed deviates, then zeros.\<close>

definition source_of :: "real list \<Rightarrow> rng" where
  "source_of us = \<lparr>deviates = (\<lambda>i. if i < length us then us ! i else 0), drawn = 0\<rparr>"

subsection \<open>The loop over the arithmetic of the code\<close>

text \<open>
  The operations the loop and its driver apply to floats: the zero that \<open>tot_score\<close> and the
  lower end of the envelope start from, \<open>+\<close>, \<open>-\<close>, \<open>*\<close>, \<open><\<close>, and the division of the total by
  the sample count.
\<close>

record 'f arith =
  fzero :: 'f
  fadd :: "'f \<Rightarrow> 'f \<Rightarrow> 'f"
  fsub :: "'f \<Rightarrow> 'f \<Rightarrow> 'f"
  fmul :: "'f \<Rightarrow> 'f \<Rightarrow> 'f"
  fless :: "'f \<Rightarrow> 'f \<Rightarrow> bool"
  fdiv :: "'f \<Rightarrow> int \<Rightarrow> 'f"

text \<open>The random source over the values of the arithmetic: the deviates and the position.\<close>

type_synonym 'f source = "(nat \<Rightarrow> 'f) \<times> nat"

definition random_ar :: "'f source \<Rightarrow> 'f \<times> 'f source" where
  "random_ar g = (case g of (us, p) \<Rightarrow> (us p, (us, Suc p)))"

definition uniform_ar :: "'f arith \<Rightarrow> 'f \<Rightarrow> 'f \<Rightarrow> 'f source \<Rightarrow> 'f \<times> 'f source" where
  "uniform_ar ar a b g =
     (case random_ar g of (u, g') \<Rightarrow> (fadd ar a (fmul ar (fsub ar b a) u), g'))"

text \<open>The loop body, the estimator and the driver, operation for operation as above.\<close>

definition trial_ar ::
  "'f arith \<Rightarrow> ('f \<Rightarrow> error + 'f) \<Rightarrow> 'f \<Rightarrow> 'f \<Rightarrow> 'f \<Rightarrow> 'f \<Rightarrow> int \<Rightarrow> 'f \<times> 'f source
     \<Rightarrow> error + 'f \<times> 'f source" where
  "trial_ar ar target a b fmax score n st =
     (case st of (tot_score, g) \<Rightarrow>
        (case uniform_ar ar a b g of (x, g1) \<Rightarrow>
           (case uniform_ar ar (fzero ar) fmax g1 of (f, g2) \<Rightarrow>
              (case target x of
                 Inl e \<Rightarrow> Inl e
               | Inr f_x \<Rightarrow>
                   if fless ar f f_x then Inr (fadd ar tot_score score, g2)
                   else Inr (tot_score, g2)))))"

definition MCHist_ar ::
  "'f arith \<Rightarrow> ('f \<Rightarrow> error + 'f) \<Rightarrow> int \<Rightarrow> 'f \<Rightarrow> 'f \<Rightarrow> 'f \<Rightarrow> 'f source
     \<Rightarrow> error + 'f \<times> 'f source" where
  "MCHist_ar ar target n_hist a b fmax g =
     (let score = fmul ar (fsub ar b a) fmax;
          tot_score = fzero ar
      in for_loop (trial_ar ar target a b fmax score) (range_py 1 n_hist) (tot_score, g))"

definition truediv_ar :: "'f arith \<Rightarrow> 'f \<Rightarrow> int \<Rightarrow> error + 'f" where
  "truediv_ar ar x n = (if n = 0 then Inl ZeroDivisionError else Inr (fdiv ar x n))"

definition estimate_ar :: "'f arith \<Rightarrow> error + 'f \<times> 'f source \<Rightarrow> int \<Rightarrow> error + 'f" where
  "estimate_ar ar run num_hist =
     (case run of Inl e \<Rightarrow> Inl e | Inr (results, g') \<Rightarrow> truediv_ar ar results num_hist)"

definition x_at_ar :: "'f arith \<Rightarrow> 'f \<Rightarrow> 'f \<Rightarrow> 'f source \<Rightarrow> nat \<Rightarrow> 'f" where
  "x_at_ar ar a b g j = fadd ar a (fmul ar (fsub ar b a) (fst g (snd g + 2 * j)))"

definition y_at_ar :: "'f arith \<Rightarrow> 'f \<Rightarrow> 'f source \<Rightarrow> nat \<Rightarrow> 'f" where
  "y_at_ar ar fmax g j =
     fadd ar (fzero ar) (fmul ar (fsub ar fmax (fzero ar)) (fst g (snd g + 2 * j + 1)))"

definition hits_ar ::
  "'f arith \<Rightarrow> ('f \<Rightarrow> 'f) \<Rightarrow> 'f \<Rightarrow> 'f \<Rightarrow> 'f \<Rightarrow> 'f source \<Rightarrow> nat \<Rightarrow> nat" where
  "hits_ar ar f a b fmax g k =
     length (filter (\<lambda>j. fless ar (y_at_ar ar fmax g j) (f (x_at_ar ar a b g j))) [0..<k])"

definition advance_ar :: "nat \<Rightarrow> 'f source \<Rightarrow> 'f source" where
  "advance_ar k g = (fst g, snd g + k)"

text \<open>The total after \<open>k\<close> hits: \<open>tot_score += score\<close> applied \<open>k\<close> times to the initial zero.\<close>

definition added :: "'f arith \<Rightarrow> 'f \<Rightarrow> nat \<Rightarrow> 'f" where
  "added ar score k = ((\<lambda>tot_score. fadd ar tot_score score) ^^ k) (fzero ar)"

text \<open>Exact real arithmetic.\<close>

definition exact :: "real arith" where
  "exact = \<lparr>fzero = 0, fadd = (+), fsub = (-), fmul = (*), fless = (<),
            fdiv = (\<lambda>x n. x / of_int n)\<rparr>"

definition as_source :: "rng \<Rightarrow> real source" where
  "as_source g = (deviates g, drawn g)"

text \<open>
  IEEE 754 binary64 in its normal range: a result is the exact result rounded to 53
  significant bits, ties to even. Overflow, subnormal results, infinities and NaN are not
  in this instance; it is used at concrete arguments far from them.
\<close>

definition round_even :: "real \<Rightarrow> int" where
  "round_even r =
     (let f = \<lfloor>r\<rfloor>; d = r - of_int f
      in if d < 1 / 2 then f else if 1 / 2 < d then f + 1 else if even f then f else f + 1)"

definition rnd64 :: "real \<Rightarrow> real" where
  "rnd64 x =
     (if x = 0 then 0
      else (let ulp = 2 powr (of_int \<lfloor>log 2 \<bar>x\<bar>\<rfloor> - 52)
            in of_int (round_even (x / ulp)) * ulp))"

definition binary64 :: "real arith" where
  "binary64 = \<lparr>fzero = 0, fadd = (\<lambda>x y. rnd64 (x + y)), fsub = (\<lambda>x y. rnd64 (x - y)),
               fmul = (\<lambda>x y. rnd64 (x * y)), fless = (<),
               fdiv = (\<lambda>x n. rnd64 (x / rnd64 (of_int n)))\<rparr>"

text \<open>
  \<open>np.exp(x**2)\<close> in binary64, with \<open>np.exp\<close> taken as correctly rounded; the runs below
  evaluate it at zero only, where it is exactly one. \<open>MCHist64\<close> is \<open>MCHist\<close> in binary64.
\<close>

definition np_exp_sq :: "real \<Rightarrow> real" where
  "np_exp_sq x = rnd64 (exp (rnd64 (x ^ 2)))"

definition MCHist64 :: "int \<Rightarrow> real \<Rightarrow> real \<Rightarrow> real \<Rightarrow> real source \<Rightarrow> error + real \<times> real source" where
  "MCHist64 = MCHist_ar binary64 (\<lambda>x. Inr (np_exp_sq x))"

text \<open>The source whose every deviate is zero.\<close>

definition zero_source :: "real source" where
  "zero_source = (\<lambda>i. 0, 0)"

section \<open>The loop as a count of hits\<close>

lemma trial_total:
  "trial (\<lambda>x. Inr (f x)) a b fmax score n (tot, g) =
     Inr (if y_at fmax g 0 < f (x_at a b g 0) then tot + score else tot, advance 2 g)"
  by (simp add: trial_def uniform_def random_py_def x_at_def y_at_def advance_def)

lemma advance_advance: "advance j (advance k g) = advance (k + j) g"
  by (simp add: advance_def)

lemma advance_0: "advance 0 g = g"
  by (simp add: advance_def)

lemma x_at_advance: "x_at a b (advance 2 g) j = x_at a b g (Suc j)"
  by (simp add: x_at_def advance_def)

lemma y_at_advance: "y_at fmax (advance 2 g) j = y_at fmax g (Suc j)"
  by (simp add: y_at_def advance_def)

lemma hits_0: "hits f a b fmax g 0 = 0"
  by (simp add: hits_def)

lemma hits_Suc_shift:
  "hits f a b fmax g (Suc k) =
     (if y_at fmax g 0 < f (x_at a b g 0) then 1 else 0) + hits f a b fmax (advance 2 g) k"
proof -
  have "[0..<Suc k] = 0 # map Suc [0..<k]"
    by (simp add: upt_conv_Cons map_Suc_upt del: upt_Suc)
  then show ?thesis
    by (simp add: hits_def filter_map o_def x_at_advance y_at_advance del: upt_Suc)
qed

lemma hits_le: "hits f a b fmax g k \<le> k"
  unfolding hits_def by (rule order_trans [OF length_filter_le]) simp


lemma loop_total:
  "for_loop (trial (\<lambda>x. Inr (f x)) a b fmax score) ns (tot, g) =
     Inr (tot + real (hits f a b fmax g (length ns)) * score, advance (2 * length ns) g)"
proof (induction ns arbitrary: tot g)
  case Nil
  show ?case by (simp add: hits_0 advance_0)
next
  case (Cons n ns)
  show ?case
    by (simp add: trial_total Cons.IH hits_Suc_shift advance_advance algebra_simps)
qed

lemma length_range_py: "length (range_py 1 n) = nat (n - 1)"
  by (simp add: range_py_def)

lemma MCHist_of_total:
  "MCHist_of (\<lambda>x. Inr (f x)) n a b fmax g =
     Inr (real (hits f a b fmax g (nat (n - 1))) * ((b - a) * fmax), advance (2 * nat (n - 1)) g)"
  by (simp add: MCHist_of_def loop_total length_range_py)

lemma MCHist_of_no_trials: "n \<le> 1 \<Longrightarrow> MCHist_of target n a b fmax g = Inr (0, g)"
  by (simp add: MCHist_of_def range_py_def)

lemma trial_cases:
  "trial target a b fmax score n (tot, g) = Inr (v, g') \<Longrightarrow>
     (v = tot \<or> v = tot + score) \<and> g' = advance 2 g"
  by (auto simp: trial_def uniform_def random_py_def advance_def split: sum.splits if_splits)

lemma loop_bound:
  "for_loop (trial target a b fmax score) ns (tot, g) = Inr (v, g') \<Longrightarrow>
     (\<exists>k\<le>length ns. v = tot + real k * score) \<and> g' = advance (2 * length ns) g"
proof (induction ns arbitrary: tot g)
  case Nil
  then show ?case by (simp add: advance_0)
next
  case (Cons n ns)
  from Cons.prems obtain v1 g1 where
    t: "trial target a b fmax score n (tot, g) = Inr (v1, g1)" and
    r: "for_loop (trial target a b fmax score) ns (v1, g1) = Inr (v, g')"
    by (auto split: sum.splits)
  from trial_cases [OF t] have c: "v1 = tot \<or> v1 = tot + score" and g1: "g1 = advance 2 g"
    by simp_all
  from Cons.IH [OF r] obtain k where k: "k \<le> length ns" "v = v1 + real k * score"
    and g': "g' = advance (2 * length ns) g1" by blast
  from c show ?case
  proof
    assume "v1 = tot"
    with k have "k \<le> length (n # ns) \<and> v = tot + real k * score" by simp
    then show ?thesis using g' g1 by (auto simp: advance_advance)
  next
    assume "v1 = tot + score"
    with k have "Suc k \<le> length (n # ns) \<and> v = tot + real (Suc k) * score"
      by (simp add: algebra_simps)
    then show ?thesis using g' g1 by (auto simp: advance_advance simp del: of_nat_Suc)
  qed
qed

lemma MCHist_of_bound:
  assumes "MCHist_of target n a b fmax g = Inr (v, g')"
  shows "(\<exists>k\<le>nat (n - 1). v = real k * ((b - a) * fmax)) \<and> g' = advance (2 * nat (n - 1)) g"
  using loop_bound [of target a b fmax "(b - a) * fmax" "range_py 1 n" 0 g v g'] assms
  by (simp add: MCHist_of_def length_range_py)

text \<open>Two sources that agree on the deviates a trial draws give the same trial.\<close>

lemma trial_agree:
  assumes "deviates g (drawn g) = deviates h (drawn h)"
    and "deviates g (Suc (drawn g)) = deviates h (Suc (drawn h))"
  shows "map_sum id fst (trial target a b fmax score n (tot, g)) =
         map_sum id fst (trial target a b fmax score n (tot, h))"
  using assms
  by (simp add: trial_def uniform_def random_py_def split: sum.splits)

lemma loop_agree:
  assumes "\<And>i. i < 2 * length ns \<Longrightarrow> deviates g (drawn g + i) = deviates h (drawn h + i)"
  shows "map_sum id fst (for_loop (trial target a b fmax score) ns (tot, g)) =
         map_sum id fst (for_loop (trial target a b fmax score) ns (tot, h))"
  using assms
proof (induction ns arbitrary: tot g h)
  case Nil
  show ?case by simp
next
  case (Cons n ns)
  have d0: "deviates g (drawn g) = deviates h (drawn h)"
    using Cons.prems [of 0] by simp
  have d1: "deviates g (Suc (drawn g)) = deviates h (Suc (drawn h))"
    using Cons.prems [of 1] by simp
  have rest: "deviates (advance 2 g) (drawn (advance 2 g) + i) =
              deviates (advance 2 h) (drawn (advance 2 h) + i)" if "i < 2 * length ns" for i
    using Cons.prems [of "i + 2"] that by (simp add: advance_def add.commute add.left_commute)
  note ta = trial_agree [OF d0 d1, of target a b fmax score n tot]
  show ?case
  proof (cases "trial target a b fmax score n (tot, g)")
    case (Inl e)
    with ta show ?thesis by (auto split: sum.splits)
  next
    case (Inr s)
    obtain v g1 where s: "s = (v, g1)" by (cases s)
    from Inr s trial_cases have g1: "g1 = advance 2 g" by blast
    from ta Inr s obtain h1 where
      th: "trial target a b fmax score n (tot, h) = Inr (v, h1)"
      by (cases "trial target a b fmax score n (tot, h)") auto
    with trial_cases have h1: "h1 = advance 2 h" by blast
    show ?thesis
      using Cons.IH [of "advance 2 g" "advance 2 h" v] rest Inr s th g1 h1 by simp
  qed
qed

section \<open>Draws below the envelope\<close>

lemma unit_deviates_advance: "unit_deviates (advance k g) = unit_deviates g"
  by (simp add: unit_deviates_def advance_def)

lemma uniform_envelope_le:
  assumes "0 \<le> fmax" and "unit_deviates g1" and "uniform 0 fmax g1 = (y, g2)"
  shows "y \<le> fmax"
proof -
  have "deviates g1 (drawn g1) \<le> 1"
    using assms(2) by (simp add: unit_deviates_def less_imp_le)
  then have "fmax * deviates g1 (drawn g1) \<le> fmax * 1"
    using assms(1) by (rule mult_left_mono)
  then show ?thesis
    using assms(3) by (auto simp: uniform_def random_py_def)
qed

lemma uniform_envelope_less:
  assumes "0 < fmax" and "unit_deviates g1" and "uniform 0 fmax g1 = (y, g2)"
  shows "y < fmax"
proof -
  have "deviates g1 (drawn g1) < 1"
    using assms(2) by (simp add: unit_deviates_def)
  then have "fmax * deviates g1 (drawn g1) < fmax * 1"
    using assms(1) by (simp only: mult_less_cancel_left_pos)
  then show ?thesis
    using assms(3) by (auto simp: uniform_def random_py_def)
qed

lemma uniform_source: "uniform lo hi g = (v, g') \<Longrightarrow> g' = advance 1 g"
  by (auto simp: uniform_def random_py_def advance_def)

lemma trial_clip:
  assumes "0 \<le> fmax" and "unit_deviates g"
  shows "trial (clip fmax target) a b fmax ((b - a) * fmax) n (tot, g) =
         trial target a b fmax ((b - a) * fmax) n (tot, g)"
proof -
  obtain x g1 where u1: "uniform a b g = (x, g1)" by (cases "uniform a b g")
  obtain y g2 where u2: "uniform 0 fmax g1 = (y, g2)" by (cases "uniform 0 fmax g1")
  from uniform_source [OF u1] assms(2) have ud: "unit_deviates g1"
    by (simp add: unit_deviates_advance)
  show ?thesis
  proof (cases "target x")
    case (Inl e)
    with u1 u2 show ?thesis by (simp add: trial_def clip_def)
  next
    case (Inr f_x)
    show ?thesis
    proof (cases "fmax = 0")
      case True
      with u1 u2 Inr show ?thesis by (simp add: trial_def clip_def)
    next
      case False
      with assms(1) have "0 < fmax" by simp
      from uniform_envelope_less [OF this ud u2] have "y < fmax" .
      then have "(y < min f_x fmax) = (y < f_x)" by simp
      with u1 u2 Inr show ?thesis by (simp add: trial_def clip_def)
    qed
  qed
qed

lemma loop_clip:
  assumes "0 \<le> fmax" and "unit_deviates g"
  shows "for_loop (trial (clip fmax target) a b fmax ((b - a) * fmax)) ns (tot, g) =
         for_loop (trial target a b fmax ((b - a) * fmax)) ns (tot, g)"
  using assms(2)
proof (induction ns arbitrary: tot g)
  case Nil
  show ?case by simp
next
  case (Cons n ns)
  note tc = trial_clip [OF assms(1) Cons.prems, of target a b n tot]
  show ?case
  proof (cases "trial target a b fmax ((b - a) * fmax) n (tot, g)")
    case (Inl e)
    with tc show ?thesis by simp
  next
    case (Inr s)
    obtain v g1 where s: "s = (v, g1)" by (cases s)
    from Inr s trial_cases have "g1 = advance 2 g" by blast
    with Cons.prems have "unit_deviates g1" by (simp add: unit_deviates_advance)
    from Cons.IH [OF this, of v] tc Inr s show ?thesis by simp
  qed
qed

lemma unit_deviates_zeros: "unit_deviates (source_of [])"
  by (simp add: unit_deviates_def source_of_def)


text \<open>
  With deviates in the unit interval and an envelope \<open>fmax \<ge> 0\<close>, a trial whose target value
  is above \<open>fmax\<close> scores whatever \<open>y\<close> is drawn, and a run for a target is the run for the
  target clipped at \<open>fmax\<close>.
\<close>

lemma envelope_exceeded_truncates:
  assumes "0 \<le> fmax" and "unit_deviates g"
  shows "(uniform a b g = (x, g1) \<and> uniform 0 fmax g1 = (y, g2) \<and> target x = Inr f_x
            \<and> fmax < f_x
          \<longrightarrow> trial target a b fmax score n (tot, g) = Inr (tot + score, g2))
       \<and> MCHist_of target n_hist a b fmax g = MCHist_of (clip fmax target) n_hist a b fmax g"
proof (intro conjI impI)
  assume h: "uniform a b g = (x, g1) \<and> uniform 0 fmax g1 = (y, g2) \<and> target x = Inr f_x
      \<and> fmax < f_x"
  then have u1: "uniform a b g = (x, g1)" and u2: "uniform 0 fmax g1 = (y, g2)"
    and t: "target x = Inr f_x" and ex: "fmax < f_x" by simp_all
  from uniform_source [OF u1] assms(2) have "unit_deviates g1"
    by (simp add: unit_deviates_advance)
  from uniform_envelope_le [OF assms(1) this u2] ex have "y < f_x" by simp
  with u1 u2 t show "trial target a b fmax score n (tot, g) = Inr (tot + score, g2)"
    by (simp add: trial_def)
next
  show "MCHist_of target n_hist a b fmax g = MCHist_of (clip fmax target) n_hist a b fmax g"
    by (simp add: MCHist_of_def loop_clip [OF assms])
qed

section \<open>The loop over any arithmetic\<close>

lemma trial_ar_total:
  "trial_ar ar (\<lambda>x. Inr (f x)) a b fmax score n (tot, g) =
     Inr (if fless ar (y_at_ar ar fmax g 0) (f (x_at_ar ar a b g 0)) then fadd ar tot score else tot,
          advance_ar 2 g)"
  by (cases g)
    (simp add: trial_ar_def uniform_ar_def random_ar_def x_at_ar_def y_at_ar_def advance_ar_def)

lemma advance_ar_advance_ar: "advance_ar j (advance_ar k g) = advance_ar (k + j) g"
  by (simp add: advance_ar_def)

lemma advance_ar_0: "advance_ar 0 g = g"
  by (simp add: advance_ar_def)

lemma x_at_ar_advance: "x_at_ar ar a b (advance_ar 2 g) j = x_at_ar ar a b g (Suc j)"
  by (simp add: x_at_ar_def advance_ar_def)

lemma y_at_ar_advance: "y_at_ar ar fmax (advance_ar 2 g) j = y_at_ar ar fmax g (Suc j)"
  by (simp add: y_at_ar_def advance_ar_def)

lemma hits_ar_Suc_shift:
  "hits_ar ar f a b fmax g (Suc k) =
     (if fless ar (y_at_ar ar fmax g 0) (f (x_at_ar ar a b g 0)) then 1 else 0)
       + hits_ar ar f a b fmax (advance_ar 2 g) k"
proof -
  have "[0..<Suc k] = 0 # map Suc [0..<k]"
    by (simp add: upt_conv_Cons map_Suc_upt del: upt_Suc)
  then show ?thesis
    by (simp add: hits_ar_def filter_map o_def x_at_ar_advance y_at_ar_advance del: upt_Suc)
qed

lemma hits_ar_le: "hits_ar ar f a b fmax g k \<le> k"
  unfolding hits_ar_def by (rule order_trans [OF length_filter_le]) simp

lemma hits_ar_all:
  assumes "\<And>j. j < k \<Longrightarrow> fless ar (y_at_ar ar fmax g j) (f (x_at_ar ar a b g j))"
  shows "hits_ar ar f a b fmax g k = k"
proof -
  have "filter (\<lambda>j. fless ar (y_at_ar ar fmax g j) (f (x_at_ar ar a b g j))) [0..<k] = [0..<k]"
    using assms by (simp add: filter_id_conv)
  then show ?thesis by (simp add: hits_ar_def)
qed

lemma add_score_swap:
  "((\<lambda>t. fadd ar t score) ^^ k) (fadd ar tot score) =
     fadd ar (((\<lambda>t. fadd ar t score) ^^ k) tot) score"
  using funpow_swap1 [of "\<lambda>t. fadd ar t score" k tot] by simp

lemma loop_ar_total:
  "for_loop (trial_ar ar (\<lambda>x. Inr (f x)) a b fmax score) ns (tot, g) =
     Inr (((\<lambda>t. fadd ar t score) ^^ hits_ar ar f a b fmax g (length ns)) tot,
          advance_ar (2 * length ns) g)"
proof (induction ns arbitrary: tot g)
  case Nil
  show ?case by (simp add: hits_ar_def advance_ar_0)
next
  case (Cons n ns)
  show ?case
    by (simp add: trial_ar_total Cons.IH hits_ar_Suc_shift advance_ar_advance_ar add_score_swap)
qed

lemma MCHist_ar_total:
  "MCHist_ar ar (\<lambda>x. Inr (f x)) n a b fmax g =
     Inr (added ar (fmul ar (fsub ar b a) fmax) (hits_ar ar f a b fmax g (nat (n - 1))),
          advance_ar (2 * nat (n - 1)) g)"
  by (simp add: MCHist_ar_def loop_ar_total length_range_py added_def)

lemma trial_ar_cases:
  "trial_ar ar target a b fmax score n (tot, g) = Inr (v, g') \<Longrightarrow>
     (v = tot \<or> v = fadd ar tot score) \<and> g' = advance_ar 2 g"
  by (cases g)
    (auto simp: trial_ar_def uniform_ar_def random_ar_def advance_ar_def
      split: sum.splits if_splits)

lemma loop_ar_bound:
  "for_loop (trial_ar ar target a b fmax score) ns (tot, g) = Inr (v, g') \<Longrightarrow>
     (\<exists>k\<le>length ns. v = ((\<lambda>t. fadd ar t score) ^^ k) tot) \<and> g' = advance_ar (2 * length ns) g"
proof (induction ns arbitrary: tot g)
  case Nil
  then show ?case by (simp add: advance_ar_0)
next
  case (Cons n ns)
  from Cons.prems obtain v1 g1 where
    t: "trial_ar ar target a b fmax score n (tot, g) = Inr (v1, g1)" and
    r: "for_loop (trial_ar ar target a b fmax score) ns (v1, g1) = Inr (v, g')"
    by (auto split: sum.splits)
  from trial_ar_cases [OF t] have c: "v1 = tot \<or> v1 = fadd ar tot score"
    and g1: "g1 = advance_ar 2 g" by simp_all
  from Cons.IH [OF r] obtain k where k: "k \<le> length ns"
    "v = ((\<lambda>t. fadd ar t score) ^^ k) v1"
    and g': "g' = advance_ar (2 * length ns) g1" by blast
  from c show ?case
  proof
    assume "v1 = tot"
    with k have "k \<le> length (n # ns) \<and> v = ((\<lambda>t. fadd ar t score) ^^ k) tot" by simp
    then show ?thesis using g' g1 by (auto simp: advance_ar_advance_ar)
  next
    assume "v1 = fadd ar tot score"
    with k have "Suc k \<le> length (n # ns) \<and> v = ((\<lambda>t. fadd ar t score) ^^ Suc k) tot"
      by (simp add: add_score_swap)
    then show ?thesis using g' g1 by (auto simp: advance_ar_advance_ar simp del: funpow.simps)
  qed
qed

lemma MCHist_ar_bound:
  assumes "MCHist_ar ar target n a b fmax g = Inr (v, g')"
  shows "(\<exists>k\<le>nat (n - 1). v = added ar (fmul ar (fsub ar b a) fmax) k)
       \<and> g' = advance_ar (2 * nat (n - 1)) g"
  using loop_ar_bound [of ar target a b fmax "fmul ar (fsub ar b a) fmax" "range_py 1 n"
      "fzero ar" g v g'] assms
  by (simp add: MCHist_ar_def length_range_py added_def)

lemma added_exact: "added exact score k = real k * score"
  by (induction k) (simp_all add: added_def exact_def algebra_simps)

lemma added_Suc: "added ar score (Suc k) = fadd ar (added ar score k) score"
  by (simp add: added_def)

lemma added_0: "added ar score 0 = fzero ar"
  by (simp add: added_def)

lemma hits_exact_zero_source:
  "hits_ar exact (\<lambda>x. exp (x ^ 2)) a b fmax zero_source k = k"
  by (rule hits_ar_all) (simp add: y_at_ar_def x_at_ar_def exact_def zero_source_def)

section \<open>The real model is the exact instance\<close>

lemma trial_ar_exact:
  "trial_ar exact target a b fmax score n (tot, as_source g) =
     map_sum id (map_prod id as_source) (trial target a b fmax score n (tot, g))"
  by (simp add: trial_ar_def trial_def uniform_ar_def uniform_def random_ar_def random_py_def
      as_source_def exact_def split: sum.splits)

lemma loop_ar_exact:
  "for_loop (trial_ar exact target a b fmax score) ns (tot, as_source g) =
     map_sum id (map_prod id as_source) (for_loop (trial target a b fmax score) ns (tot, g))"
proof (induction ns arbitrary: tot g)
  case Nil
  show ?case by simp
next
  case (Cons n ns)
  show ?case
  proof (cases "trial target a b fmax score n (tot, g)")
    case (Inl e)
    then show ?thesis by (simp add: trial_ar_exact)
  next
    case (Inr s)
    obtain v g1 where "s = (v, g1)" by (cases s)
    with Inr show ?thesis by (simp add: trial_ar_exact Cons.IH)
  qed
qed

lemma MCHist_ar_exact:
  "MCHist_ar exact target n a b fmax (as_source g) =
     map_sum id (map_prod id as_source) (MCHist_of target n a b fmax g)"
  by (simp add: MCHist_ar_def MCHist_of_def loop_ar_exact) (simp add: exact_def)

section \<open>Rounding to binary64\<close>

lemma floor_log2:
  assumes "2 ^ k \<le> \<bar>x::real\<bar>" and "\<bar>x\<bar> < 2 ^ Suc k"
  shows "\<lfloor>log 2 \<bar>x\<bar>\<rfloor> = int k"
proof (rule floor_unique)
  have "(0::real) < 2 ^ k" by simp
  with assms(1) have pos: "0 < \<bar>x\<bar>" by linarith
  have "(2::real) powr real k \<le> \<bar>x\<bar>" using assms(1) by (simp add: powr_realpow)
  then show "of_int (int k) \<le> log 2 \<bar>x\<bar>" using pos by (simp add: le_log_iff)
  have "\<bar>x\<bar> < (2::real) powr real (Suc k)" using assms(2) by (simp only: powr_realpow zero_less_numeral)
  then have "log 2 \<bar>x\<bar> < real (Suc k)" using pos by (simp only: log_less_iff one_less_numeral_iff semiring_norm)
  then show "log 2 \<bar>x\<bar> < of_int (int k) + 1" by simp
qed

lemma rnd64_normal:
  assumes "2 ^ k \<le> \<bar>x\<bar>" and "\<bar>x\<bar> < 2 ^ Suc k" and "k \<le> 52"
  shows "rnd64 x = of_int (round_even (x * 2 ^ (52 - k))) / 2 ^ (52 - k)"
proof -
  have "0 < \<bar>x\<bar>" by (rule less_le_trans [OF _ assms(1)]) simp
  then have x0: "x \<noteq> 0" by simp
  have "(2::real) powr (of_int (int k) - 52) = 2 powr (- real (52 - k))"
    using assms(3) by (simp add: of_nat_diff)
  also have "\<dots> = 1 / 2 ^ (52 - k)"
    by (simp add: powr_minus powr_realpow divide_inverse)
  finally have ulp: "(2::real) powr (of_int (int k) - 52) = 1 / 2 ^ (52 - k)" .
  note fl = floor_log2 [OF assms(1,2)]
  show ?thesis
    unfolding rnd64_def Let_def fl ulp using x0 by simp
qed

lemma floor_log2_small:
  assumes "1 \<le> \<bar>x::real\<bar> * 2 ^ k" and "\<bar>x\<bar> * 2 ^ k < 2"
  shows "\<lfloor>log 2 \<bar>x\<bar>\<rfloor> = - int k"
proof (rule floor_unique)
  have pos: "0 < \<bar>x\<bar>" using assms(1) by (cases "x = 0") simp_all
  have l: "log 2 (\<bar>x\<bar> * 2 ^ k) = log 2 \<bar>x\<bar> + real k"
    using pos by (simp add: log_mult log_nat_power)
  have "0 \<le> log 2 (\<bar>x\<bar> * 2 ^ k)" using assms(1) by simp
  with l show "of_int (- int k) \<le> log 2 \<bar>x\<bar>" by simp
  have "0 < \<bar>x\<bar> * 2 ^ k" using assms(1) by linarith
  then have "log 2 (\<bar>x\<bar> * 2 ^ k) < 1" using assms(2) by (simp add: log_less_iff)
  with l show "log 2 \<bar>x\<bar> < of_int (- int k) + 1" by simp
qed

lemma rnd64_small:
  assumes "1 \<le> \<bar>x\<bar> * 2 ^ k" and "\<bar>x\<bar> * 2 ^ k < 2"
  shows "rnd64 x = of_int (round_even (x * 2 ^ (52 + k))) / 2 ^ (52 + k)"
proof -
  have x0: "x \<noteq> 0" using assms(1) by (cases "x = 0") simp_all
  have "(of_int (- int k) - 52 :: real) = - real (52 + k)" by simp
  then have "(2::real) powr (of_int (- int k) - 52) = 2 powr (- real (52 + k))"
    by (rule arg_cong)
  also have "\<dots> = 1 / 2 ^ (52 + k)"
    by (simp only: powr_minus powr_realpow zero_less_numeral divide_inverse mult_1)
  finally have ulp: "(2::real) powr (of_int (- int k) - 52) = 1 / 2 ^ (52 + k)" .
  note fl = floor_log2_small [OF assms]
  show ?thesis
    unfolding rnd64_def Let_def fl ulp using x0 by simp
qed

lemma rnd64_0: "rnd64 0 = 0"
  by (simp add: rnd64_def)

lemma fadd64: "fadd binary64 x y = rnd64 (x + y)"
  by (simp add: binary64_def)

text \<open>The envelope \<open>54.6\<close>, the score \<open>(2.0 - 0.0) * 54.6\<close> and the totals after one to seven hits.\<close>

lemma F: "rnd64 (273 / 5) = 7684266864200909 / 140737488355328"
  by (simp add: rnd64_normal [where k = 5] round_even_def Let_def)

lemma r1: "rnd64 1 = 1"
  by (simp add: rnd64_normal [where k = 0] round_even_def Let_def)

lemma r2: "rnd64 2 = 2"
  by (simp add: rnd64_normal [where k = 1] round_even_def Let_def)

lemma r8: "rnd64 8 = 8"
  by (simp add: rnd64_normal [where k = 3] round_even_def Let_def)

lemma s1: "rnd64 (0 + 7684266864200909 / 70368744177664) = 7684266864200909 / 70368744177664"
  by (simp add: rnd64_normal [where k = 6] round_even_def Let_def)

lemma s2: "rnd64 (7684266864200909 / 70368744177664 + 7684266864200909 / 70368744177664)
    = 7684266864200909 / 35184372088832"
  by (simp add: rnd64_normal [where k = 7] round_even_def Let_def)

lemma s3: "rnd64 (7684266864200909 / 35184372088832 + 7684266864200909 / 70368744177664)
    = 2881600074075341 / 8796093022208"
  by (simp add: rnd64_normal [where k = 8] round_even_def Let_def)

lemma s4: "rnd64 (2881600074075341 / 8796093022208 + 7684266864200909 / 70368744177664)
    = 7684266864200909 / 17592186044416"
  by (simp add: rnd64_normal [where k = 8] round_even_def Let_def)

lemma s5: "rnd64 (7684266864200909 / 17592186044416 + 7684266864200909 / 70368744177664)
    = 546"
  by (simp add: rnd64_normal [where k = 9] round_even_def Let_def)

lemma s6: "rnd64 (546 + 7684266864200909 / 70368744177664)
    = 2881600074075341 / 4398046511104"
  by (simp add: rnd64_normal [where k = 9] round_even_def Let_def)

lemma s7: "rnd64 (2881600074075341 / 4398046511104 + 7684266864200909 / 70368744177664)
    = 1680933376543949 / 2199023255552"
  by (simp add: rnd64_normal [where k = 9] round_even_def Let_def)

lemma r78: "rnd64 (7 / 8) = 7 / 8"
  by (simp add: rnd64_small [where k = 1] round_even_def Let_def)

lemma r74: "rnd64 (7 / 8 * 2) = 7 / 4"
  by (simp add: rnd64_normal [where k = 0] round_even_def Let_def)

lemma rhs: "rnd64 (7 / 4 * (7684266864200909 / 140737488355328))
    = 6723733506175795 / 70368744177664"
  by (simp add: rnd64_normal [where k = 6] round_even_def Let_def)

lemma rS: "rnd64 (7684266864200909 / 70368744177664) = 7684266864200909 / 70368744177664"
  by (simp add: rnd64_normal [where k = 6] round_even_def Let_def)

lemma rQ: "rnd64 (1680933376543949 / 17592186044416) = 1680933376543949 / 17592186044416"
  by (simp add: rnd64_normal [where k = 6] round_even_def Let_def)

lemma score64: "fmul binary64 (fsub binary64 2 0) (rnd64 (273 / 5)) = 7684266864200909 / 70368744177664"
  by (simp add: binary64_def r2 F rS)

lemma added64_seven:
  "added binary64 (7684266864200909 / 70368744177664) 7 = 1680933376543949 / 2199023255552"
proof -
  let ?S = "7684266864200909 / 70368744177664 :: real"
  have a0: "added binary64 ?S 0 = 0" by (simp add: added_0 binary64_def)
  have a1: "added binary64 ?S (Suc 0) = ?S"
    by (simp only: added_Suc a0 fadd64 s1)
  have a2: "added binary64 ?S (Suc (Suc 0)) = 7684266864200909 / 35184372088832"
    by (simp only: added_Suc [of _ _ "Suc 0"] a1 fadd64 s2)
  have a3: "added binary64 ?S (Suc (Suc (Suc 0))) = 2881600074075341 / 8796093022208"
    by (simp only: added_Suc [of _ _ "Suc (Suc 0)"] a2 fadd64 s3)
  have a4: "added binary64 ?S (Suc (Suc (Suc (Suc 0)))) = 7684266864200909 / 17592186044416"
    by (simp only: added_Suc [of _ _ "Suc (Suc (Suc 0))"] a3 fadd64 s4)
  have a5: "added binary64 ?S (Suc (Suc (Suc (Suc (Suc 0))))) = 546"
    by (simp only: added_Suc [of _ _ "Suc (Suc (Suc (Suc 0)))"] a4 fadd64 s5)
  have a6: "added binary64 ?S (Suc (Suc (Suc (Suc (Suc (Suc 0)))))) = 2881600074075341 / 4398046511104"
    by (simp only: added_Suc [of _ _ "Suc (Suc (Suc (Suc (Suc 0))))"] a5 fadd64 s6)
  have a7: "added binary64 ?S (Suc (Suc (Suc (Suc (Suc (Suc (Suc 0)))))))
      = 1680933376543949 / 2199023255552"
    by (simp only: added_Suc [of _ _ "Suc (Suc (Suc (Suc (Suc (Suc 0)))))"] a6 fadd64 s7)
  have "(7::nat) = Suc (Suc (Suc (Suc (Suc (Suc (Suc 0))))))" by simp
  with a7 show ?thesis by (simp only:)
qed

lemma hits64_all: "hits_ar binary64 np_exp_sq 0 2 (rnd64 (273 / 5)) zero_source k = k"
proof (rule hits_ar_all)
  fix j
  have y: "y_at_ar binary64 (rnd64 (273 / 5)) zero_source j = 0"
    by (simp add: y_at_ar_def binary64_def zero_source_def rnd64_0)
  have x: "x_at_ar binary64 0 2 zero_source j = 0"
    by (simp add: x_at_ar_def binary64_def zero_source_def rnd64_0)
  have "np_exp_sq 0 = 1" by (simp add: np_exp_sq_def rnd64_0 r1)
  with x y show "fless binary64 (y_at_ar binary64 (rnd64 (273 / 5)) zero_source j)
      (np_exp_sq (x_at_ar binary64 0 2 zero_source j))"
    by (simp add: binary64_def)
qed

section \<open>A constant target\<close>


section \<open>Claims\<close>

text \<open>
  C1, as claimed: the quotient of the value returned and the sample count equals
  \<open>(hits / n) * (b - a) * fmax\<close>. In binary64 it does not. With eight histories on \<open>[0, 2]\<close>
  under the envelope \<open>54.6\<close> and every deviate zero, all seven trials are hits, the total
  is \<open>764.4000000000001\<close> and the quotient \<open>95.55000000000001\<close>. That is neither the exact
  value of \<open>(7 / 8) * (2 - 0) * fmax\<close> at the float nearest \<open>54.6\<close> nor the value of that
  expression computed in binary64, which is \<open>95.55\<close>.
\<close>

theorem float_estimate_differs:
  "hits_ar binary64 np_exp_sq 0 2 (rnd64 (273 / 5)) zero_source (nat (8 - 1)) = 7
   \<and> estimate_ar binary64 (MCHist64 8 0 2 (rnd64 (273 / 5)) zero_source) 8
       = Inr (1680933376543949 / 17592186044416)
   \<and> (1680933376543949 / 17592186044416 :: real) \<noteq> 7 / 8 * (2 - 0) * rnd64 (273 / 5)
   \<and> (1680933376543949 / 17592186044416 :: real)
       \<noteq> rnd64 (rnd64 (rnd64 (7 / rnd64 8) * rnd64 (2 - 0)) * rnd64 (273 / 5))"
proof -
  have n7: "nat (8 - 1) = (7::nat)" by simp
  have run: "MCHist64 8 0 2 (rnd64 (273 / 5)) zero_source
      = Inr (1680933376543949 / 2199023255552, advance_ar (2 * 7) zero_source)"
    unfolding MCHist64_def MCHist_ar_total n7 hits64_all score64 added64_seven ..
  have est: "estimate_ar binary64 (MCHist64 8 0 2 (rnd64 (273 / 5)) zero_source) 8
       = Inr (1680933376543949 / 17592186044416)"
    unfolding run by (simp add: estimate_ar_def truediv_ar_def binary64_def r8 rQ)
  have rhs64: "rnd64 (rnd64 (rnd64 (7 / rnd64 8) * rnd64 (2 - 0)) * rnd64 (273 / 5))
      = 6723733506175795 / 70368744177664"
    by (simp only: r8 r78 diff_zero r2 r74 F rhs)
  have c1: "hits_ar binary64 np_exp_sq 0 2 (rnd64 (273 / 5)) zero_source (nat (8 - 1)) = 7"
    by (simp only: n7 hits64_all)
  have c3: "(1680933376543949 / 17592186044416 :: real) \<noteq> 7 / 8 * (2 - 0) * rnd64 (273 / 5)"
    by (simp add: F)
  have c4: "(1680933376543949 / 17592186044416 :: real)
       \<noteq> rnd64 (rnd64 (rnd64 (7 / rnd64 8) * rnd64 (2 - 0)) * rnd64 (273 / 5))"
    unfolding rhs64 by simp
  from c1 est c3 c4 show ?thesis by (intro conjI)
qed

text \<open>
  C1, amended: for a sample count within 64 bits, the published quotient is the total
  divided by \<open>n\<close>, and the total is \<open>score\<close> added to zero once for each hit, all in the
  arithmetic of the code, with \<open>score = (b - a) * fmax\<close> and \<open>hits\<close> counting those of the
  \<open>nat (n - 1)\<close> trials of the run whose drawn \<open>y\<close> was below \<open>f x\<close>; at \<open>n = 0\<close> the division
  raises. In exact real arithmetic the quotient is \<open>(hits / n) * (b - a) * fmax\<close>.
\<close>

theorem estimate_ar_formula:
  assumes "- (2 ^ 63) < n" and "n < 2 ^ 63"
  shows "estimate_ar ar (MCHist_ar ar (\<lambda>x. Inr (f x)) n a b fmax g) n =
           (if n = 0 then Inl ZeroDivisionError
            else Inr (fdiv ar (added ar (fmul ar (fsub ar b a) fmax)
                                 (hits_ar ar f a b fmax g (nat (n - 1)))) n))
       \<and> estimate_ar exact (MCHist_ar exact (\<lambda>x. Inr (f' x)) n a' b' fmax' g') n =
           (if n = 0 then Inl ZeroDivisionError
            else Inr (real (hits_ar exact f' a' b' fmax' g' (nat (n - 1))) / of_int n
                        * (b' - a') * fmax'))"
proof
  show "estimate_ar ar (MCHist_ar ar (\<lambda>x. Inr (f x)) n a b fmax g) n =
           (if n = 0 then Inl ZeroDivisionError
            else Inr (fdiv ar (added ar (fmul ar (fsub ar b a) fmax)
                                 (hits_ar ar f a b fmax g (nat (n - 1)))) n))"
    by (simp add: MCHist_ar_total estimate_ar_def truediv_ar_def)
  have "fmul exact (fsub exact b' a') fmax' = (b' - a') * fmax'"
    by (simp add: exact_def)
  then show "estimate_ar exact (MCHist_ar exact (\<lambda>x. Inr (f' x)) n a' b' fmax' g') n =
           (if n = 0 then Inl ZeroDivisionError
            else Inr (real (hits_ar exact f' a' b' fmax' g' (nat (n - 1))) / of_int n
                        * (b' - a') * fmax'))"
    by (simp add: MCHist_ar_total estimate_ar_def truediv_ar_def added_exact)
      (simp add: exact_def)
qed

theorem estimate_ar_formula_witness:
  "- (2 ^ 63) < (3::int) \<and> (3::int) < 2 ^ 63
   \<and> estimate_ar exact (MCHist_ar exact (\<lambda>x. Inr (exp (x ^ 2))) 3 0 2 1 zero_source) 3
       = Inr (4 / 3)"
proof -
  have lo: "- (2 ^ 63) < (3::int)" and hi: "(3::int) < 2 ^ 63" by simp_all
  have n2: "nat (3 - 1) = (2::nat)" by simp
  note t = estimate_ar_formula [OF lo hi, of exact "\<lambda>x. exp (x ^ 2)" 0 2 1 zero_source
      "\<lambda>x. exp (x ^ 2)" 0 2 1 zero_source]
  from t [THEN conjunct2] show ?thesis
    unfolding n2 hits_exact_zero_source by simp
qed

text \<open>
  C2. The expected estimate is claimed to equal the integral of the target. With the sample
  count one, a valid input, the loop \<open>range(1, 1)\<close> is empty: for every interval, every
  envelope and every random source the estimate of the integral of \<open>exp (x\<^sup>2)\<close> is zero,
  so its expectation is zero, while the integrand is at least one everywhere.
\<close>

theorem MCHist_single_history_zero:
  "MCHist 1 a b fmax g = Inr (0, g) \<and> estimate (MCHist 1 a b fmax g) 1 = Inr 0"
  by (simp add: MCHist_def MCHist_of_no_trials estimate_def truediv_def)

text \<open>
  C3, as claimed: an interval with \<open>a \<ge> b\<close>, an envelope \<open>fmax \<le> 0\<close> and a sample count
  \<open>n \<le> 0\<close> are each rejected before sampling. The estimator validates nothing: each of
  these three runs returns a number.
\<close>

theorem MCHist_accepts_invalid_inputs:
  "MCHist 2 1 0 1 (source_of []) = Inr (- 1, advance 2 (source_of []))
   \<and> MCHist 2 0 1 (- 1) (source_of []) = Inr (- 1, advance 2 (source_of []))
   \<and> MCHist (- 5) 0 1 1 (source_of []) = Inr (0, source_of [])"
  by (simp add: MCHist_def MCHist_of_def range_py_def upto.simps trial_def uniform_def
      random_py_def source_of_def advance_def)

text \<open>
  C3, amended: an input with \<open>a \<ge> b\<close>, with \<open>fmax \<le> 0\<close> or with \<open>n \<le> 0\<close> is not rejected.
  Where neither \<open>x**2\<close> can leave the float range (\<open>a\<close> and \<open>b\<close> within \<open>10 ^ 150\<close> in size)
  nor the sample count leaves 64 bits, and the deviates lie in the unit interval, the
  call on such an input runs its \<open>nat (n - 1)\<close> trials and returns a number; the driver
  fails on such an input exactly when the sample count is zero, by the division that
  follows the call.
\<close>

theorem MCHist_never_rejects:
  assumes "b \<le> a \<or> fmax \<le> 0 \<or> n \<le> 0"
    and "\<bar>a\<bar> \<le> 10 ^ 150" and "\<bar>b\<bar> \<le> 10 ^ 150"
    and "- (2 ^ 63) < n" and "n < 2 ^ 63"
    and "unit_deviates g"
  shows "(\<exists>v. MCHist n a b fmax g = Inr (v, g\<lparr>drawn := drawn g + 2 * nat (n - 1)\<rparr>))
       \<and> (isl (estimate (MCHist n a b fmax g) n) \<longleftrightarrow> n = 0)"
  by (simp add: MCHist_def MCHist_of_total estimate_def truediv_def advance_def)

theorem MCHist_never_rejects_witness:
  "(0::real) \<le> 1 \<and> \<bar>1::real\<bar> \<le> 10 ^ 150 \<and> \<bar>0::real\<bar> \<le> 10 ^ 150
   \<and> - (2 ^ 63) < (2::int) \<and> (2::int) < 2 ^ 63 \<and> unit_deviates (source_of [])
   \<and> MCHist 2 1 0 1 (source_of []) = Inr (- 1, advance 2 (source_of []))
   \<and> \<not> isl (estimate (MCHist 2 1 0 1 (source_of [])) 2)"
proof -
  have h: "(0::real) \<le> 1 \<or> (1::real) \<le> 0 \<or> (2::int) \<le> 0" by simp
  have ma: "\<bar>1::real\<bar> \<le> 10 ^ 150" and mb: "\<bar>0::real\<bar> \<le> 10 ^ 150" by simp_all
  have lo: "- (2 ^ 63) < (2::int)" and hi: "(2::int) < 2 ^ 63" by simp_all
  have r: "MCHist 2 1 0 1 (source_of []) = Inr (- 1, advance 2 (source_of []))"
    by (simp add: MCHist_def MCHist_of_def range_py_def upto.simps trial_def uniform_def
      random_py_def source_of_def advance_def)
  from MCHist_never_rejects [OF h ma mb lo hi unit_deviates_zeros]
  have "\<not> isl (estimate (MCHist 2 1 0 1 (source_of [])) 2)" by simp
  with r ma mb unit_deviates_zeros show ?thesis by simp
qed

text \<open>
  C4. The estimator is claimed to make exactly \<open>n\<close> trials for a positive sample count
  \<open>n\<close>. Each trial draws two deviates, and a run draws \<open>2 * (n - 1)\<close> of them for
  \<open>n \<ge> 1\<close>: the loop \<open>range(1, n_hist)\<close> makes \<open>n - 1\<close> trials. With the sample count three
  the source has advanced by four deviates, which is two trials.
\<close>

theorem MCHist_draws:
  "(\<exists>v g'. MCHist n a b fmax g = Inr (v, g') \<and> deviates g' = deviates g
        \<and> drawn g' = drawn g + 2 * nat (n - 1))
   \<and> (\<exists>v. MCHist 3 0 2 (273 / 5) g = Inr (v, advance 4 g))"
proof -
  have "nat (3 - 1) = (2::nat)" by simp
  then have "MCHist 3 0 2 (273 / 5) g =
      Inr (real (hits (\<lambda>x. exp (x ^ 2)) 0 2 (273 / 5) g 2) * ((2 - 0) * (273 / 5)), advance 4 g)"
    by (simp add: MCHist_def MCHist_of_total)
  then have "\<exists>v. MCHist 3 0 2 (273 / 5) g = Inr (v, advance 4 g)" by blast
  then show ?thesis by (simp add: MCHist_def MCHist_of_total advance_def)
qed

text \<open>
  C5. In a trial that draws \<open>x\<close> and then \<open>y\<close>, and whose target evaluates to \<open>f_x\<close>, the
  score is added to the total exactly when \<open>y < f_x\<close>; otherwise the total is unchanged,
  and in particular \<open>y = f_x\<close> is a miss.
\<close>

theorem trial_hit_iff_below:
  assumes "uniform a b g = (x, g1)" and "uniform 0 fmax g1 = (y, g2)" and "target x = Inr f_x"
  shows "trial target a b fmax score n (tot, g) =
           Inr (if y < f_x then tot + score else tot, g2)
         \<and> (y = f_x \<longrightarrow> trial target a b fmax score n (tot, g) = Inr (tot, g2))"
  using assms by (simp add: trial_def)

theorem trial_hit_iff_below_witness:
  "uniform 0 2 (source_of [0, 1 / 2]) = (0, advance 1 (source_of [0, 1 / 2]))
   \<and> uniform 0 2 (advance 1 (source_of [0, 1 / 2])) = (1, advance 2 (source_of [0, 1 / 2]))
   \<and> trial (\<lambda>x. Inr (exp (x ^ 2))) 0 2 2 4 1 (0, source_of [0, 1 / 2])
       = Inr (0, advance 2 (source_of [0, 1 / 2]))"
proof -
  have u1: "uniform 0 2 (source_of [0, 1 / 2]) = (0, advance 1 (source_of [0, 1 / 2]))"
    by (simp add: uniform_def random_py_def source_of_def advance_def)
  have u2: "uniform 0 2 (advance 1 (source_of [0, 1 / 2])) = (1, advance 2 (source_of [0, 1 / 2]))"
    by (simp add: uniform_def random_py_def source_of_def advance_def)
  from trial_hit_iff_below [of 0 2 "source_of [0, 1 / 2]" 0 "advance 1 (source_of [0, 1 / 2])" 2 1
      "advance 2 (source_of [0, 1 / 2])" "\<lambda>x. Inr (exp (x ^ 2))" 1 4 1 0] u1 u2
  show ?thesis by simp
qed



text \<open>
  C8. The value a run returns, or the error it raises, is determined by its arguments and
  the deviates it draws: two sources that agree on the next \<open>2 * (n - 1)\<close> deviates give the
  same outcome. The only state a returning run changes is the position of the random
  source, which moves past the deviates drawn. \<open>MCHist\<close> and \<open>MCHist2\<close> are the instances
  of \<open>MCHist_of\<close> at their targets.
\<close>

theorem MCHist_of_deterministic:
  assumes "\<forall>i<2 * nat (n - 1). deviates g (drawn g + i) = deviates h (drawn h + i)"
  shows "map_sum id fst (MCHist_of target n a b fmax g)
           = map_sum id fst (MCHist_of target n a b fmax h)
       \<and> (\<forall>v g'. MCHist_of target n a b fmax g = Inr (v, g')
            \<longrightarrow> g' = g\<lparr>drawn := drawn g + 2 * nat (n - 1)\<rparr>)"
proof -
  have "map_sum id fst (MCHist_of target n a b fmax g)
      = map_sum id fst (MCHist_of target n a b fmax h)"
    unfolding MCHist_of_def Let_def
    by (rule loop_agree) (use assms in \<open>simp add: length_range_py\<close>)
  moreover have "g' = g\<lparr>drawn := drawn g + 2 * nat (n - 1)\<rparr>"
    if "MCHist_of target n a b fmax g = Inr (v, g')" for v g'
    using MCHist_of_bound [OF that] by (simp add: advance_def)
  ultimately show ?thesis by blast
qed

theorem MCHist_of_deterministic_witness:
  "map_sum id fst (MCHist 2 0 2 1 (source_of [0, 0, 1 / 2]))
     = map_sum id fst (MCHist 2 0 2 1 (source_of [0, 0, 1 / 4]))
   \<and> MCHist 2 0 2 1 (source_of [0, 0, 1 / 2])
       = Inr (2, (source_of [0, 0, 1 / 2])\<lparr>drawn := 2\<rparr>)"
proof -
  have a: "\<forall>i<2 * nat (2 - 1). deviates (source_of [0, 0, 1 / 2]) (drawn (source_of [0, 0, 1 / 2]) + i)
      = deviates (source_of [0, 0, 1 / 4]) (drawn (source_of [0, 0, 1 / 4]) + i)"
    by (simp add: source_of_def less_Suc_eq numeral_2_eq_2)
  have r: "MCHist 2 0 2 1 (source_of [0, 0, 1 / 2])
       = Inr (2, (source_of [0, 0, 1 / 2])\<lparr>drawn := 2\<rparr>)"
    by (simp add: MCHist_def MCHist_of_def range_py_def upto.simps trial_def uniform_def
      random_py_def source_of_def)
  from MCHist_of_deterministic [OF a, of "\<lambda>x. Inr (exp (x ^ 2))" 0 2 1] r
  show ?thesis by (simp add: MCHist_def)
qed

text \<open>
  C9, as claimed: for every input the value returned is \<open>k * (b - a) * fmax\<close> with
  \<open>0 \<le> k \<le> n_hist - 1\<close>, and for \<open>a < b\<close>, \<open>fmax > 0\<close> it is at most
  \<open>(n_hist - 1) * (b - a) * fmax\<close>. With \<open>n_hist = 0\<close> the value returned is zero, which is
  above that bound.
\<close>

theorem zero_histories_bound_fails:
  "MCHist 0 0 2 (273 / 5) (source_of []) = Inr (0, source_of [])
   \<and> \<not> (0 \<le> (of_int 0 - 1) * (2 - 0) * (273 / 5 :: real))"
  by (simp add: MCHist_def MCHist_of_def range_py_def)

text \<open>
  C9, amended: for a sample count within 64 bits, the value returned is the total after
  \<open>k\<close> hits for a natural number \<open>k \<le> max 0 (n_hist - 1)\<close>: \<open>score = (b - a) * fmax\<close> added \<open>k\<close>
  times to zero in the arithmetic of the code. For a target that always evaluates \<open>k\<close> is
  the number of hits of the run; for any target it is some such \<open>k\<close> whenever the run
  returns. In exact real arithmetic that is \<open>k * (b - a) * fmax\<close>,
  and for \<open>a < b\<close> and \<open>fmax > 0\<close> it is then non-negative and at most
  \<open>max 0 (n_hist - 1) * (b - a) * fmax\<close>.
\<close>

theorem MCHist_ar_added_score:
  assumes "- (2 ^ 63) < n" and "n < 2 ^ 63"
  shows "MCHist_ar ar (\<lambda>x. Inr (f x)) n a b fmax g
           = Inr (added ar (fmul ar (fsub ar b a) fmax) (hits_ar ar f a b fmax g (nat (n - 1))),
                  advance_ar (2 * nat (n - 1)) g)
       \<and> int (hits_ar ar f a b fmax g (nat (n - 1))) \<le> max 0 (n - 1)
       \<and> (\<forall>v g'. MCHist_ar ar target n a b fmax g = Inr (v, g')
            \<longrightarrow> (\<exists>k. int k \<le> max 0 (n - 1) \<and> v = added ar (fmul ar (fsub ar b a) fmax) k))
       \<and> (\<forall>v g'. MCHist_ar exact target' n a' b' fmax' h = Inr (v, g')
            \<longrightarrow> (\<exists>k. int k \<le> max 0 (n - 1) \<and> v = real k * (b' - a') * fmax')
               \<and> (a' < b' \<and> 0 < fmax'
                    \<longrightarrow> 0 \<le> v \<and> v \<le> of_int (max 0 (n - 1)) * (b' - a') * fmax'))"
proof (intro conjI allI impI)
  show "MCHist_ar ar (\<lambda>x. Inr (f x)) n a b fmax g
           = Inr (added ar (fmul ar (fsub ar b a) fmax) (hits_ar ar f a b fmax g (nat (n - 1))),
                  advance_ar (2 * nat (n - 1)) g)"
    by (rule MCHist_ar_total)
  show "int (hits_ar ar f a b fmax g (nat (n - 1))) \<le> max 0 (n - 1)"
    using hits_ar_le [of ar f a b fmax g "nat (n - 1)"] by linarith
next
  fix v g'
  assume "MCHist_ar ar target n a b fmax g = Inr (v, g')"
  from MCHist_ar_bound [OF this] obtain k where
    "k \<le> nat (n - 1)" and v: "v = added ar (fmul ar (fsub ar b a) fmax) k" by blast
  then have "int k \<le> max 0 (n - 1)" by linarith
  with v show "\<exists>k. int k \<le> max 0 (n - 1) \<and> v = added ar (fmul ar (fsub ar b a) fmax) k"
    by blast
next
  fix v g'
  assume r: "MCHist_ar exact target' n a' b' fmax' h = Inr (v, g')"
  have sc: "fmul exact (fsub exact b' a') fmax' = (b' - a') * fmax'"
    by (simp add: exact_def)
  from MCHist_ar_bound [OF r] obtain k where
    k: "k \<le> nat (n - 1)" and v: "v = real k * ((b' - a') * fmax')"
    unfolding sc added_exact by blast
  from k have ki: "int k \<le> max 0 (n - 1)" by linarith
  with v show "\<exists>k. int k \<le> max 0 (n - 1) \<and> v = real k * (b' - a') * fmax'"
    by (auto simp: mult.assoc)
  {
    assume "a' < b' \<and> 0 < fmax'"
    then have pos: "0 \<le> (b' - a') * fmax'" by simp
    have "real k \<le> of_int (max 0 (n - 1))"
      using ki by (metis of_int_le_iff of_int_of_nat_eq)
    then have "real k * ((b' - a') * fmax') \<le> of_int (max 0 (n - 1)) * ((b' - a') * fmax')"
      using pos by (rule mult_right_mono)
    moreover have "0 \<le> real k * ((b' - a') * fmax')" using pos by simp
    ultimately show "0 \<le> v" and "v \<le> of_int (max 0 (n - 1)) * (b' - a') * fmax'"
      using v by (simp_all add: mult.assoc)
  }
qed

theorem MCHist_ar_added_score_witness:
  "- (2 ^ 63) < (8::int) \<and> (8::int) < 2 ^ 63
   \<and> MCHist64 8 0 2 (rnd64 (273 / 5)) zero_source
       = Inr (1680933376543949 / 2199023255552, advance_ar 14 zero_source)
   \<and> (\<exists>k. int k \<le> max 0 (8 - 1)
         \<and> (1680933376543949 / 2199023255552 :: real)
            = added binary64 (fmul binary64 (fsub binary64 2 0) (rnd64 (273 / 5))) k)
   \<and> (1::real) < 4 \<and> (0::real) < 100
   \<and> MCHist_ar exact (\<lambda>x. Inr (exp (x ^ 2))) 2 1 4 100 zero_source
       = Inr (300, advance_ar 2 zero_source)
   \<and> (\<exists>k. int k \<le> max 0 (2 - 1) \<and> (300::real) = real k * (4 - 1) * 100)
   \<and> (0::real) \<le> 300 \<and> (300::real) \<le> of_int (max 0 (2 - 1)) * (4 - 1) * 100"
proof -
  have lo8: "- (2 ^ 63) < (8::int)" and hi8: "(8::int) < 2 ^ 63" by simp_all
  have lo2: "- (2 ^ 63) < (2::int)" and hi2: "(2::int) < 2 ^ 63" by simp_all
  have n7: "nat (8 - 1) = (7::nat)" by simp
  have run64: "MCHist64 8 0 2 (rnd64 (273 / 5)) zero_source
      = Inr (1680933376543949 / 2199023255552, advance_ar 14 zero_source)"
    unfolding MCHist64_def MCHist_ar_total n7 hits64_all score64 added64_seven by simp
  have n1: "nat (2 - 1) = (1::nat)" by simp
  have runx: "MCHist_ar exact (\<lambda>x. Inr (exp (x ^ 2))) 2 1 4 100 zero_source
       = Inr (300, advance_ar 2 zero_source)"
    unfolding MCHist_ar_total n1 hits_exact_zero_source added_exact by (simp add: exact_def)
  note t64 = MCHist_ar_added_score [OF lo8 hi8, of binary64 np_exp_sq 0 2 "rnd64 (273 / 5)"
      zero_source "\<lambda>x. Inr (np_exp_sq x)" "\<lambda>x. Inr (exp (x ^ 2))" 1 4 100 zero_source]
  note tx = MCHist_ar_added_score [OF lo2 hi2, of exact "\<lambda>x. exp (x ^ 2)" 1 4 100
      zero_source "\<lambda>x. Inr (exp (x ^ 2))" "\<lambda>x. Inr (exp (x ^ 2))" 1 4 100 zero_source]
  from t64 run64 have e64: "\<exists>k. int k \<le> max 0 (8 - 1)
         \<and> (1680933376543949 / 2199023255552 :: real)
            = added binary64 (fmul binary64 (fsub binary64 2 0) (rnd64 (273 / 5))) k"
    unfolding MCHist64_def by blast
  from tx runx have ex: "(\<exists>k. int k \<le> max 0 (2 - 1) \<and> (300::real) = real k * (4 - 1) * 100)
      \<and> (0::real) \<le> 300 \<and> (300::real) \<le> of_int (max 0 (2 - 1)) * (4 - 1) * 100"
    by simp
  from lo8 hi8 run64 e64 runx ex show ?thesis by simp
qed

text \<open>
  C10, as claimed: for every sample count at most one the published estimate is zero rather
  than a failure. With the sample count zero the division \<open>results / num_hist\<close> raises.
\<close>

theorem zero_histories_estimate_fails:
  "estimate (MCHist 0 0 2 (273 / 5) (source_of [])) 0 = Inl ZeroDivisionError"
  by (simp add: MCHist_def MCHist_of_def range_py_def estimate_def truediv_def)

text \<open>
  C10, amended: for every sample count at most one and above \<open>- (2 ^ 63)\<close> (zero and negative
  counts included), \<open>MCHist\<close> makes no trial, draws no deviate and returns exactly zero
  without raising; the quotient published from it is zero unless the sample count is
  zero, where the division raises \<open>ZeroDivisionError\<close>.
\<close>

theorem MCHist_no_trials:
  assumes "n \<le> 1" and "- (2 ^ 63) < n"
  shows "MCHist n a b fmax g = Inr (0, g)
     \<and> estimate (MCHist n a b fmax g) n = (if n = 0 then Inl ZeroDivisionError else Inr 0)"
  using assms(1) by (simp add: MCHist_def MCHist_of_no_trials estimate_def truediv_def)

theorem MCHist_no_trials_witness:
  "(- 3 :: int) \<le> 1 \<and> - (2 ^ 63) < (- 3 :: int)
   \<and> MCHist (- 3) 0 2 (273 / 5) (source_of [1 / 2]) = Inr (0, source_of [1 / 2])
   \<and> estimate (MCHist (- 3) 0 2 (273 / 5) (source_of [1 / 2])) (- 3) = Inr 0"
proof -
  have u: "(- 3 :: int) \<le> 1" and l: "- (2 ^ 63) < (- 3 :: int)" by simp_all
  from MCHist_no_trials [OF u l, of 0 2 "273 / 5" "source_of [1 / 2]"]
  show ?thesis by (simp add: estimate_def truediv_def)
qed

end
